theory Spec2Isabelle
  imports Main "HOL-Library.Word"
begin

unbundle bit_operations_syntax

section \<open>The uPD7759 encoder of \<^verbatim>\<open>encode.c\<close>\<close>

text \<open>
  The program reads 16-bit PCM samples, turns every sample into a 4-bit code with the help
  of two constant tables, packs two codes into a byte and writes a one-byte frequency
  marker in front of the data and again at regular intervals.

  C types are modelled by words of their width: \<^verbatim>\<open>short\<close> and \<^verbatim>\<open>uint16_t\<close> are
  \<^typ>\<open>16 word\<close>, \<^verbatim>\<open>char\<close> and \<^verbatim>\<open>uint8_t\<close> are \<^typ>\<open>8 word\<close>, \<^verbatim>\<open>int\<close> is
  \<^typ>\<open>32 word\<close>. Plain \<^verbatim>\<open>char\<close> is read as a signed type (the program compares it
  with \<^verbatim>\<open>0\<close> from below), so a \<^verbatim>\<open>char\<close> is promoted to \<^verbatim>\<open>int\<close> by \<^const>\<open>scast\<close> and
  compared with the signed orders; a conversion to a narrower type keeps the low bits.
\<close>

subsection \<open>Frequency markers\<close>

text \<open>The enumeration \<^verbatim>\<open>frequency_upd7759_t\<close> (lines 42-47).\<close>

definition NONE :: "8 word" where
  "NONE = push_bit 3 0x0"

definition FIVEKHZ :: "8 word" where
  "FIVEKHZ = 0x5f"

definition SIXKHZ :: "8 word" where
  "SIXKHZ = 0x59"

definition EIGHTKHZ :: "8 word" where
  "EIGHTKHZ = 0x53"

text \<open>\<^verbatim>\<open>get_frequency\<close> (lines 176-184).\<close>

definition get_frequency :: "32 word \<Rightarrow> 8 word" where
  "get_frequency samplerate =
     (if samplerate = 5000 then FIVEKHZ
      else if samplerate = 6000 then SIXKHZ
      else if samplerate = 8000 then EIGHTKHZ
      else 0)"

subsection \<open>The encoder state\<close>

text \<open>
  The local variables of \<^verbatim>\<open>output_upd_file\<close> that live across loop iterations, together
  with the bytes handed to \<^verbatim>\<open>fwrite\<close> so far. The counter \<^verbatim>\<open>onesixty\<close> is an \<^verbatim>\<open>int\<close>
  that is reset whenever it reaches 256, so it is kept as a natural number.

  The tables \<^verbatim>\<open>upd7759_state_table[16]\<close> and \<^verbatim>\<open>upd7759_step[16][16]\<close> are only declared
  in \<^verbatim>\<open>encode.c\<close> (lines 19-20); their contents are parameters of the model, given as
  functions of the (signed) index values. Reading \<^verbatim>\<open>upd7759_step[state][sample]\<close> with
  a row index outside \<open>0..15\<close> leaves the declared array. C gives no meaning to such a
  read; the model lets the parameter answer it and records the event in the field
  \<open>out_of_bounds\<close>, which is never reset.
\<close>

record encoder =
  state :: "32 word"
  onesixty :: nat
  output_sample :: "8 word"
  written :: "8 word list"
  out_of_bounds :: bool

definition in_bounds :: "32 word \<Rightarrow> bool" where
  "in_bounds idx = (0 \<le>s idx \<and> idx \<le>s 15)"

text \<open>The two clamps of lines 199-202.\<close>

definition clamp_state :: "32 word \<Rightarrow> 32 word" where
  "clamp_state x = (if x <s 0 then 0 else if 15 <s x then 15 else x)"

definition clamp_sample :: "8 word \<Rightarrow> 8 word" where
  "clamp_sample x = (if x <s 0 then 0 else if 15 <s x then 15 else x)"

text \<open>Lines 197-198: the sample is copied into an unsigned 16-bit variable, shifted and
  narrowed to \<^verbatim>\<open>char\<close>.\<close>

definition shift_sample :: "16 word \<Rightarrow> 8 word" where
  "shift_sample sample2 = ucast (drop_bit 7 (ucast sample2 :: 32 word))"

text \<open>
  Lines 197-211: from the old \<^verbatim>\<open>state\<close> and the sample \<^verbatim>\<open>data[i]\<close> to the new \<^verbatim>\<open>state\<close> and
  the new \<^verbatim>\<open>sample\<close>.
\<close>

definition encode_sample ::
  "(int \<Rightarrow> 32 word) \<Rightarrow> (int \<Rightarrow> int \<Rightarrow> 32 word) \<Rightarrow> 32 word \<Rightarrow> 16 word \<Rightarrow> 32 word \<times> 8 word" where
  "encode_sample upd7759_state_table upd7759_step state0 d =
     (let sample2 = d;
          sample = shift_sample sample2;
          state = clamp_state state0;
          sample = clamp_sample sample;
          state = upd7759_state_table (sint sample) - state;
          sample = (ucast (upd7759_step (sint state) (sint sample) - scast sample) :: 8 word)
      in (state, sample))"

text \<open>One iteration of the loop (lines 196-226); \<open>freq\<close> is the marker byte.\<close>

definition loop_body ::
  "(int \<Rightarrow> 32 word) \<Rightarrow> (int \<Rightarrow> int \<Rightarrow> 32 word) \<Rightarrow> 8 word \<Rightarrow> encoder \<Rightarrow> 16 word \<Rightarrow> encoder" where
  "loop_body upd7759_state_table upd7759_step freq e d =
     (let (state', sample) = encode_sample upd7759_state_table upd7759_step (state e) d;
          oob = (out_of_bounds e \<or> \<not> in_bounds state');
          e1 = (if onesixty e AND 1 \<noteq> 0
                then (let os = (ucast (push_bit 4 (ucast (output_sample e) :: 32 word)
                                        OR (scast sample AND 0x0f)) :: 8 word)
                      in e\<lparr>state := state', output_sample := os,
                           written := written e @ [os], out_of_bounds := oob\<rparr>)
                else e\<lparr>state := state',
                       output_sample := (ucast ((scast sample :: 32 word) AND 0x0f) :: 8 word),
                       out_of_bounds := oob\<rparr>)
      in if onesixty e + 1 = 256
         then e1\<lparr>onesixty := 0, written := written e1 @ [freq]\<rparr>
         else e1\<lparr>onesixty := onesixty e + 1\<rparr>)"

text \<open>
  \<^verbatim>\<open>output_upd_file\<close> (lines 186-234): the marker, the loop over the sample buffer, and the
  final byte that flushes a pending code. The result is the encoder state after the flush;
  its field \<open>written\<close> is the content of the output file.

  The loop is given twice. \<open>encode_loop\<close> runs the loop body over the list of samples.
  \<open>indexed_loop\<close> is the loop as the program writes it, with the \<^verbatim>\<open>uint32_t\<close> index \<^verbatim>\<open>i\<close>
  compared with the 64-bit \<^verbatim>\<open>data_size\<close>; for a buffer of fewer than \<open>2^32\<close> samples it
  returns what \<open>encode_loop\<close> returns (lemma \<open>indexed_loop_encode_loop\<close> below). For a
  longer buffer the index wraps around before it reaches the size; the properties below
  are about \<open>encode_loop\<close> and say nothing about that case.
\<close>

definition encoder_init :: "8 word \<Rightarrow> encoder" where
  "encoder_init freq =
     \<lparr>state = 0, onesixty = 0, output_sample = 0x0, written = [freq], out_of_bounds = False\<rparr>"

definition encode_loop ::
  "(int \<Rightarrow> 32 word) \<Rightarrow> (int \<Rightarrow> int \<Rightarrow> 32 word) \<Rightarrow> 8 word \<Rightarrow> 16 word list \<Rightarrow> encoder" where
  "encode_loop upd7759_state_table upd7759_step freq data =
     foldl (loop_body upd7759_state_table upd7759_step freq) (encoder_init freq) data"

partial_function (option) indexed_loop ::
  "(int \<Rightarrow> 32 word) \<Rightarrow> (int \<Rightarrow> int \<Rightarrow> 32 word) \<Rightarrow> 8 word \<Rightarrow> 16 word list \<Rightarrow>
     32 word \<Rightarrow> encoder \<Rightarrow> encoder option" where
  "indexed_loop upd7759_state_table upd7759_step freq data i e =
     (if unat i < length data
      then indexed_loop upd7759_state_table upd7759_step freq data (i + 1)
             (loop_body upd7759_state_table upd7759_step freq e (data ! unat i))
      else Some e)"

definition purge :: "encoder \<Rightarrow> encoder" where
  "purge e =
     (if onesixty e AND 1 \<noteq> 0
      then (let os = (ucast (push_bit 4 (ucast (output_sample e) :: 32 word)) :: 8 word)
            in e\<lparr>output_sample := os, written := written e @ [os]\<rparr>)
      else e)"

definition output_upd_file ::
  "(int \<Rightarrow> 32 word) \<Rightarrow> (int \<Rightarrow> int \<Rightarrow> 32 word) \<Rightarrow> 32 word \<Rightarrow> 16 word list \<Rightarrow> encoder" where
  "output_upd_file upd7759_state_table upd7759_step samplerate data =
     (let freq = get_frequency samplerate
      in purge (encode_loop upd7759_state_table upd7759_step freq data))"

subsection \<open>The whole run\<close>

text \<open>
  \<^verbatim>\<open>read_pcm_file\<close> (lines 130-174) checks the header of the input before any sample is
  read; \<^verbatim>\<open>kill_str\<close> prints its message to the error stream and leaves the process with
  the given status. \<^verbatim>\<open>SF_FORMAT_PCM_16\<close> is the constant \<open>0x0002\<close> of the sound-file
  library.
\<close>

record sf_info =
  samplerate :: "32 word"
  channels :: "32 word"
  format :: "32 word"

datatype error = Killed string nat

definition EXIT_FAILURE :: nat where
  "EXIT_FAILURE = 1"

definition SF_FORMAT_PCM_16 :: "32 word" where
  "SF_FORMAT_PCM_16 = 0x0002"

definition read_pcm_file :: "sf_info \<Rightarrow> error + unit" where
  "read_pcm_file info =
     (if samplerate info \<noteq> 5000 \<and> samplerate info \<noteq> 6000 \<and> samplerate info \<noteq> 8000
      then Inl (Killed ''Only sample rates of 5khz, 6khz, or 8kz are supported.'' EXIT_FAILURE)
      else if channels info \<noteq> 1
      then Inl (Killed ''Only single channel audio is supported.'' EXIT_FAILURE)
      else if format info AND SF_FORMAT_PCM_16 = 0
      then Inl (Killed ''Audio data must be 16-bit PCM.'' EXIT_FAILURE)
      else Inr ())"

text \<open>
  \<^verbatim>\<open>main\<close> (lines 236-243): the output file is opened, and bytes are written, only after
  \<^verbatim>\<open>read_pcm_file\<close> has returned. A failed run has written nothing. \<^verbatim>\<open>read_pcm_file\<close>
  releases the \<^verbatim>\<open>input_file\<close> structure before it returns and \<^verbatim>\<open>output_upd_file\<close> still
  reads the sample rate, the buffer and its size from it; the model takes these fields as
  \<^verbatim>\<open>read_pcm_file\<close> left them.
\<close>

definition main_run ::
  "(int \<Rightarrow> 32 word) \<Rightarrow> (int \<Rightarrow> int \<Rightarrow> 32 word) \<Rightarrow> sf_info \<Rightarrow> 16 word list \<Rightarrow> error + 8 word list" where
  "main_run upd7759_state_table upd7759_step info data =
     (case read_pcm_file info of
        Inl err \<Rightarrow> Inl err
      | Inr _ \<Rightarrow> Inr (written (output_upd_file upd7759_state_table upd7759_step (samplerate info) data)))"

subsection \<open>The output as a function of the code sequence\<close>

text \<open>
  The 4-bit code of a sample is what line 216 or 219 keeps of the new \<^verbatim>\<open>sample\<close>;
  \<open>codes\<close> lists the codes of a buffer, threading \<^verbatim>\<open>state\<close> from sample to sample.
\<close>

definition code_of :: "8 word \<Rightarrow> 8 word" where
  "code_of sample = sample AND 0x0f"

fun codes ::
  "(int \<Rightarrow> 32 word) \<Rightarrow> (int \<Rightarrow> int \<Rightarrow> 32 word) \<Rightarrow> 32 word \<Rightarrow> 16 word list \<Rightarrow> 8 word list" where
  "codes T S s [] = []"
| "codes T S s (d # ds) =
     code_of (snd (encode_sample T S s d)) # codes T S (fst (encode_sample T S s d)) ds"

text \<open>Two codes per byte, the first one in the high half; a last single code is
  shifted into the high half.\<close>

fun pack :: "8 word list \<Rightarrow> 8 word list" where
  "pack (a # b # r) = (push_bit 4 a OR b) # pack r"
| "pack [a] = [push_bit 4 a]"
| "pack [] = []"

text \<open>Blocks of 256 codes (128 packed bytes), every complete block followed by the
  marker.\<close>

fun frame :: "8 word \<Rightarrow> 8 word list \<Rightarrow> 8 word list" where
  "frame f ns =
     (if length ns < 256 then pack ns
      else pack (take 256 ns) @ f # frame f (drop 256 ns))"

declare frame.simps [simp del]

text \<open>
  The bytes that the loop and the final flush write when they start with counter \<open>k\<close>
  and pending byte \<open>p\<close>, as a function of the codes still to come.
\<close>

fun emit :: "8 word \<Rightarrow> nat \<Rightarrow> 8 word \<Rightarrow> 8 word list \<Rightarrow> 8 word list" where
  "emit f k p [] = (if odd k then [push_bit 4 p] else [])"
| "emit f k p (n # ns) =
     (if odd k then [push_bit 4 p OR n] else []) @ (if Suc k = 256 then [f] else []) @
     emit f (if Suc k = 256 then 0 else Suc k) (if odd k then push_bit 4 p OR n else n) ns"

text \<open>The 16-bit sample whose bits 7 to 10 hold the value \<open>v\<close>.\<close>

definition pcm :: "int \<Rightarrow> 16 word" where
  "pcm v = push_bit 7 (word_of_int v)"

subsection \<open>The specification's wording\<close>

text \<open>
  The framing as the specification words it: a counter of packed bytes, increased when
  a byte has been written, and a marker whenever that counter reaches 256.
\<close>

fun spec_pack :: "8 word \<Rightarrow> nat \<Rightarrow> 8 word list \<Rightarrow> 8 word list" where
  "spec_pack f c (a # b # r) =
     (push_bit 4 a OR b) # (if Suc c = 256 then f # spec_pack f 0 r else spec_pack f (Suc c) r)"
| "spec_pack f c [a] = [push_bit 4 a]"
| "spec_pack f c [] = []"

definition spec_pack_stream :: "8 word \<Rightarrow> 8 word list \<Rightarrow> 8 word list" where
  "spec_pack_stream f ns = f # spec_pack f 0 ns"

text \<open>The output length as the specification words it, for \<open>n\<close> samples.\<close>

definition spec_output_length :: "nat \<Rightarrow> nat" where
  "spec_output_length n = (let packed_bytes = (n + 1) div 2 in packed_bytes + (1 + packed_bytes div 256))"

text \<open>
  The working value as the specification words it, on the signed value of the sample:
  an arithmetic shift by 7 bits, the low 8 bits of the result read as a signed
  quantity, and a clip to the range from 0 to 15.
\<close>

definition spec_narrow8 :: "int \<Rightarrow> int" where
  "spec_narrow8 x = (x + 128) mod 256 - 128"

definition spec_clip :: "int \<Rightarrow> int" where
  "spec_clip x = (if x < 0 then 0 else if 15 < x then 15 else x)"

definition spec_working_value :: "16 word \<Rightarrow> int" where
  "spec_working_value d = spec_clip (spec_narrow8 (sint d div 2 ^ 7))"

section \<open>Properties\<close>

subsection \<open>Conversions between the C types\<close>

lemma narrow_low4: "(ucast ((scast (c :: 8 word) :: 32 word) AND 0x0f) :: 8 word) = c AND 0x0f"
  by (rule bit_word_eqI) (auto simp add: bit_simps)

lemma narrow_pair:
  "(ucast (push_bit 4 (ucast (p :: 8 word) :: 32 word) OR (scast (c :: 8 word) AND 0x0f)) :: 8 word)
     = push_bit 4 p OR (c AND 0x0f)"
  by (rule bit_word_eqI) (auto simp add: bit_simps)

lemma narrow_purge: "(ucast (push_bit 4 (ucast (p :: 8 word) :: 32 word)) :: 8 word) = push_bit 4 p"
  by (rule bit_word_eqI) (auto simp add: bit_simps)

subsection \<open>One iteration, field by field\<close>

lemma loop_body_fields:
  "state (loop_body T S f e d) = fst (encode_sample T S (state e) d)"
  "onesixty (loop_body T S f e d) = (if Suc (onesixty e) = 256 then 0 else Suc (onesixty e))"
  "output_sample (loop_body T S f e d) =
     (if odd (onesixty e) then push_bit 4 (output_sample e) OR code_of (snd (encode_sample T S (state e) d))
      else code_of (snd (encode_sample T S (state e) d)))"
  "written (loop_body T S f e d) =
     written e @
     (if odd (onesixty e) then [push_bit 4 (output_sample e) OR code_of (snd (encode_sample T S (state e) d))] else []) @
     (if Suc (onesixty e) = 256 then [f] else [])"
  "out_of_bounds (loop_body T S f e d) =
     (out_of_bounds e \<or> \<not> in_bounds (fst (encode_sample T S (state e) d)))"
  by (simp_all add: loop_body_def Let_def split_beta mod_2_eq_odd narrow_low4 narrow_pair code_of_def)

lemma purge_written:
  "written (purge e) = written e @ (if odd (onesixty e) then [push_bit 4 (output_sample e)] else [])"
  by (simp add: purge_def Let_def mod_2_eq_odd narrow_purge)

lemma written_purge_foldl:
  "written (purge (foldl (loop_body T S f) e ds)) =
     written e @ emit f (onesixty e) (output_sample e) (codes T S (state e) ds)"
proof (induction ds arbitrary: e)
  case Nil
  show ?case by (simp add: purge_written)
next
  case (Cons d ds)
  show ?case
    by (simp only: foldl_Cons Cons.IH loop_body_fields codes.simps emit.simps append_assoc)
qed

lemma onesixty_foldl:
  "onesixty e < 256 \<Longrightarrow> onesixty (foldl (loop_body T S f) e ds) = (onesixty e + length ds) mod 256"
proof (induction ds arbitrary: e)
  case Nil
  then show ?case by simp
next
  case (Cons d ds)
  have "onesixty (loop_body T S f e d) < 256"
    using Cons.prems by (simp add: loop_body_fields)
  from Cons.IH [OF this] Cons.prems show ?case
    by (cases "onesixty e = 255") (simp_all add: loop_body_fields)
qed

lemma onesixty_encode_loop: "onesixty (encode_loop T S f ds) = length ds mod 256"
  by (simp add: encode_loop_def onesixty_foldl encoder_init_def)

subsection \<open>The loop index\<close>

lemma indexed_loop_drop:
  assumes "length data < 2 ^ 32"
  shows "unat i \<le> length data \<Longrightarrow>
     indexed_loop T S f data i e = Some (foldl (loop_body T S f) e (drop (unat i) data))"
proof (induction "length data - unat i" arbitrary: i e)
  case 0
  then show ?case by (simp add: indexed_loop.simps [of T S f data i e])
next
  case (Suc n)
  then have lt: "unat i < length data" by simp
  with assms have "unat i + 1 < 2 ^ 32" by simp
  then have next_i: "unat (i + 1) = Suc (unat i)"
    by (simp add: unat_word_ariths)
  have "indexed_loop T S f data (i + 1) (loop_body T S f e (data ! unat i)) =
      Some (foldl (loop_body T S f) (loop_body T S f e (data ! unat i)) (drop (unat (i + 1)) data))"
    using Suc.hyps(2) lt by (intro Suc.hyps(1)) (simp_all add: next_i)
  then show ?case
    using lt by (simp add: indexed_loop.simps [of T S f data i e] next_i
        Cons_nth_drop_Suc [symmetric])
qed

lemma indexed_loop_encode_loop:
  "length data < 2 ^ 32 \<Longrightarrow>
     indexed_loop T S f data 0 (encoder_init f) = Some (encode_loop T S f data)"
  using indexed_loop_drop [of data 0 T S f "encoder_init f"] by (simp add: encode_loop_def)

subsection \<open>From the counter to blocks\<close>

lemma emit_even_pending: "even k \<Longrightarrow> emit f k p ns = emit f k q ns"
  by (cases ns) simp_all

lemma emit_below_block:
  "even k \<Longrightarrow> k + length ns < 256 \<Longrightarrow> emit f k p ns = pack ns"
proof (induction ns arbitrary: k p rule: pack.induct)
  case (1 a b r)
  from "1.prems" have "emit f (Suc (Suc k)) (push_bit 4 a OR b) r = pack r"
    by (intro "1.IH") simp_all
  with "1.prems" show ?case by simp
next
  case (2 a)
  then show ?case by simp
next
  case 3
  then show ?case by simp
qed

lemma emit_full_block:
  "even k \<Longrightarrow> k + length xs = 256 \<Longrightarrow> xs \<noteq> [] \<Longrightarrow>
     emit f k p (xs @ ys) = pack xs @ f # emit f 0 0 ys"
proof (induction xs arbitrary: k p rule: pack.induct)
  case (1 a b r)
  show ?case
  proof (cases "r = []")
    case True
    with "1.prems" have k: "k = 254" by simp
    show ?thesis
      using True k emit_even_pending [of 0 f "push_bit 4 a OR b" ys 0] by simp
  next
    case False
    then have "0 < length r" by simp
    moreover have "k + length r = 254" using "1.prems" by simp
    ultimately have k: "k < 254" by linarith
    from "1.prems" False
    have "emit f (Suc (Suc k)) (push_bit 4 a OR b) (r @ ys) = pack r @ f # emit f 0 0 ys"
      by (intro "1.IH") simp_all
    with "1.prems" k show ?thesis by simp
  qed
next
  case (2 a)
  then show ?case by simp
next
  case 3
  then show ?case by simp
qed

lemma emit_frame: "emit f 0 p ns = frame f ns"
proof (induction f ns arbitrary: p rule: frame.induct)
  case (1 f ns)
  show ?case
  proof (cases "length ns < 256")
    case True
    then show ?thesis by (simp add: emit_below_block frame.simps [of f ns])
  next
    case False
    then have len: "length (take 256 ns) = 256" by simp
    have "emit f 0 p (take 256 ns @ drop 256 ns) = pack (take 256 ns) @ f # emit f 0 0 (drop 256 ns)"
      using len by (intro emit_full_block) auto
    with False "1.IH" [of 0] show ?thesis by (simp add: frame.simps [of f ns])
  qed
qed

lemma written_output:
  "written (output_upd_file T S r ds) = get_frequency r # frame (get_frequency r) (codes T S 0 ds)"
  by (simp add: output_upd_file_def Let_def encode_loop_def written_purge_foldl emit_frame
      encoder_init_def)

subsection \<open>Lengths\<close>

lemma length_codes: "length (codes T S s ds) = length ds"
  by (induction ds arbitrary: s) simp_all

lemma length_pack: "length (pack ns) = (length ns + 1) div 2"
  by (induction ns rule: pack.induct) simp_all

lemma length_frame: "length (frame f ns) = (length ns + 1) div 2 + length ns div 256"
proof (induction f ns rule: frame.induct)
  case (1 f ns)
  show ?case
  proof (cases "length ns < 256")
    case True
    then show ?thesis by (simp add: length_pack frame.simps [of f ns])
  next
    case False
    define m where "m = length (drop 256 ns)"
    from False have n: "length ns = 256 + m" by (simp add: m_def)
    have ih: "length (frame f (drop 256 ns)) = (m + 1) div 2 + m div 256"
      unfolding m_def by (rule "1.IH" [OF False])
    have "length (frame f ns) = 128 + 1 + length (frame f (drop 256 ns))"
      using False by (simp add: frame.simps [of f ns] length_pack)
    also have "\<dots> = (length ns + 1) div 2 + length ns div 256"
    proof -
      have "(256 + m + 1) div 2 = 128 + (m + 1) div 2"
        using div_mult_self2 [of 2 "m + 1" 128] by (simp add: ac_simps)
      moreover have "(256 + m) div 256 = 1 + m div 256"
        by simp
      ultimately show ?thesis
        unfolding ih n by simp
    qed
    finally show ?thesis .
  qed
qed

lemma length_written_output:
  "length (written (output_upd_file T S r ds)) = (length ds + 1) div 2 + 1 + length ds div 256"
  by (simp add: written_output length_frame length_codes)

subsection \<open>Where the markers are\<close>

lemma last_frame_full:
  "ns \<noteq> [] \<Longrightarrow> length ns mod 256 = 0 \<Longrightarrow> last (frame f ns) = f"
proof (induction f ns rule: frame.induct)
  case (1 f ns)
  from "1.prems" have big: "\<not> length ns < 256" by auto
  show ?case
  proof (cases "drop 256 ns = []")
    case True
    with big show ?thesis
      by (simp add: frame.simps [of f ns] frame.simps [of f "[]"])
  next
    case False
    from "1.prems" big have "length (drop 256 ns) mod 256 = 0"
      by (simp add: mod_eq_0_iff_dvd)
    with False big have "last (frame f (drop 256 ns)) = f"
      by (intro "1.IH") simp_all
    moreover have "frame f (drop 256 ns) \<noteq> []"
      using False by (cases "drop 256 ns" rule: pack.cases) (simp_all add: frame.simps [of f "_ # _"])
    ultimately show ?thesis using big
      by (simp add: frame.simps [of f ns])
  qed
qed

lemma frame_nth_marker:
  "256 * Suc k \<le> length ns \<Longrightarrow> frame f ns ! (129 * k + 128) = f"
proof (induction k arbitrary: ns)
  case 0
  then have "frame f ns = pack (take 256 ns) @ f # frame f (drop 256 ns)"
    and "length (pack (take 256 ns)) = 128"
    by (simp_all add: frame.simps [of f ns] length_pack)
  then show ?case by (simp add: nth_append)
next
  case (Suc k)
  then have eq: "frame f ns = pack (take 256 ns) @ f # frame f (drop 256 ns)"
    and len: "length (pack (take 256 ns)) = 128"
    by (simp_all add: frame.simps [of f ns] length_pack)
  from Suc.prems have "256 * Suc k \<le> length (drop 256 ns)" by simp
  then have ih: "frame f (drop 256 ns) ! (129 * k + 128) = f" by (rule Suc.IH)
  define i where "i = 129 * k + 128"
  have idx: "129 * Suc k + 128 = 128 + Suc i" by (simp add: i_def)
  have "(pack (take 256 ns) @ f # frame f (drop 256 ns)) ! (128 + Suc i) = frame f (drop 256 ns) ! i"
    using len by (simp add: nth_append)
  with ih show ?case
    unfolding eq idx i_def by simp
qed

lemma written_nth_marker:
  assumes "j \<le> length ds div 256"
  shows "written (output_upd_file T S r ds) ! (129 * j) = get_frequency r"
proof (cases j)
  case 0
  then show ?thesis by (simp add: written_output)
next
  case (Suc k)
  with assms have "256 * Suc k \<le> length (codes T S 0 ds)"
    by (simp add: length_codes)
  then have "frame (get_frequency r) (codes T S 0 ds) ! (129 * k + 128) = get_frequency r"
    by (rule frame_nth_marker)
  moreover have "129 * j = Suc (129 * k + 128)" using Suc by simp
  ultimately show ?thesis by (simp only: written_output nth_Cons_Suc)
qed

lemma spec_pack_below:
  "c + length ns div 2 < 256 \<Longrightarrow> spec_pack f c ns = pack ns"
proof (induction ns arbitrary: c rule: pack.induct)
  case (1 a b r)
  then have "spec_pack f (Suc c) r = pack r"
    by (intro "1.IH") simp
  with "1.prems" show ?case by simp
qed simp_all

subsection \<open>Pairs of samples\<close>

lemma encode_loop_snoc:
  "encode_loop T S f (ds @ [a]) = loop_body T S f (encode_loop T S f ds) a"
  by (simp add: encode_loop_def)

lemma state_foldl_codes_snoc:
  "state e = s \<Longrightarrow> codes T S s (ds @ [a]) =
     codes T S s ds @ [code_of (snd (encode_sample T S (state (foldl (loop_body T S f) e ds)) a))]"
proof (induction ds arbitrary: e s)
  case Nil
  then show ?case by simp
next
  case (Cons d ds)
  have "state (loop_body T S f e d) = fst (encode_sample T S s d)"
    using Cons.prems by (simp add: loop_body_fields)
  from Cons.IH [OF this] show ?case by simp
qed

lemma codes_snoc:
  "codes T S 0 (ds @ [a]) =
     codes T S 0 ds @ [code_of (snd (encode_sample T S (state (encode_loop T S f ds)) a))]"
  using state_foldl_codes_snoc [of "encoder_init f" 0 T S ds a f]
  by (simp add: encode_loop_def encoder_init_def)

lemma and_15: "(x :: 8 word) AND 0x0f = take_bit 4 x"
proof -
  have "(0x0f :: 8 word) = mask 4" by (simp add: mask_eq_exp_minus_1)
  then show ?thesis by (simp add: take_bit_eq_mask)
qed

lemma and_15_int: "(x :: 32 word) AND 0x0f = take_bit 4 x"
proof -
  have "(0x0f :: 32 word) = mask 4" by (simp add: mask_eq_exp_minus_1)
  then show ?thesis by (simp add: take_bit_eq_mask)
qed

lemma code_of_idem: "code_of c AND 0x0f = code_of c"
  by (simp add: code_of_def and_15)

lemma pair_bits:
  "drop_bit 4 (push_bit 4 (code_of p) OR code_of n) = code_of p"
  "(push_bit 4 (code_of p) OR code_of n) AND 0x0f = code_of n"
  "push_bit 4 (code_of p) AND 0x0f = 0"
  "drop_bit 4 (push_bit 4 (code_of p)) = code_of p"
  by (rule bit_word_eqI; auto simp add: code_of_def and_15 bit_simps)+

lemma low4_pair: "(push_bit 4 p OR code_of n) AND 0x0f = code_of n"
  unfolding code_of_def and_15
  by (rule bit_word_eqI) (auto simp add: bit_simps)

lemma code_of_narrow: "code_of (ucast (x :: 32 word)) = ucast (x AND 0x0f)"
  unfolding code_of_def and_15 and_15_int
  by (rule bit_word_eqI) (auto simp add: bit_simps)

lemma in_codes: "c \<in> set (codes T S s ds) \<Longrightarrow> \<exists>x. c = code_of x"
  by (induction ds arbitrary: s) auto

lemma last_codes_code_of: "ds \<noteq> [] \<Longrightarrow> \<exists>x. last (codes T S s ds) = code_of x"
proof -
  assume "ds \<noteq> []"
  then have "codes T S s ds \<noteq> []" by (cases ds) simp_all
  then have "last (codes T S s ds) \<in> set (codes T S s ds)" by simp
  then show ?thesis by (rule in_codes)
qed

lemma first_of_pair:
  assumes "even (length ds)"
  shows "written (encode_loop T S f (ds @ [a])) = written (encode_loop T S f ds)"
    and "output_sample (encode_loop T S f (ds @ [a])) = last (codes T S 0 (ds @ [a]))"
    and "odd (onesixty (encode_loop T S f (ds @ [a])))"
proof -
  have k: "even (onesixty (encode_loop T S f ds))"
    using assms by (simp add: onesixty_encode_loop dvd_mod_iff)
  then have "Suc (onesixty (encode_loop T S f ds)) \<noteq> 256" by auto
  with k show "written (encode_loop T S f (ds @ [a])) = written (encode_loop T S f ds)"
    and "output_sample (encode_loop T S f (ds @ [a])) = last (codes T S 0 (ds @ [a]))"
    and "odd (onesixty (encode_loop T S f (ds @ [a])))"
    by (simp_all add: encode_loop_snoc loop_body_fields codes_snoc [of T S ds a f])
qed

lemma second_of_pair:
  assumes "even (length ds)"
  shows "written (encode_loop T S f (ds @ [a, b])) =
           written (encode_loop T S f ds) @
           [push_bit 4 (last (codes T S 0 (ds @ [a]))) OR last (codes T S 0 (ds @ [a, b]))] @
           (if (length ds + 2) mod 256 = 0 then [f] else [])"
proof -
  have ab: "ds @ [a, b] = (ds @ [a]) @ [b]" by simp
  have k: "onesixty (encode_loop T S f (ds @ [a])) = Suc (length ds) mod 256"
    by (simp add: onesixty_encode_loop)
  have "(Suc (Suc (length ds)) mod 256 = 0) = (Suc (Suc (length ds) mod 256) = 256)"
    by (simp add: mod_Suc)
  moreover have "last (codes T S 0 (ds @ [a, b])) =
      code_of (snd (encode_sample T S (state (encode_loop T S f (ds @ [a]))) b))"
    using codes_snoc [of T S "ds @ [a]" b f] by simp
  ultimately show ?thesis
    unfolding ab encode_loop_snoc [of T S f "ds @ [a]" b]
    using first_of_pair [OF assms, of T S f a] k
    by (simp add: loop_body_fields)
qed

lemma output_sample_low4:
  "output_sample (loop_body T S f e d) AND 0x0f = code_of (snd (encode_sample T S (state e) d))"
  by (simp add: loop_body_fields low4_pair code_of_idem)

subsection \<open>The working value and the clamps\<close>

lemma sint_clamp_sample: "sint (clamp_sample x) = spec_clip (sint x)"
  by (simp add: clamp_sample_def spec_clip_def word_sless_alt)

lemma spec_clip_range: "0 \<le> spec_clip x \<and> spec_clip x \<le> 15"
  by (simp add: spec_clip_def)

lemma in_bounds_sint: "in_bounds x = (0 \<le> sint x \<and> sint x \<le> 15)"
  by (simp add: in_bounds_def word_sle_eq)

lemma in_bounds_0: "in_bounds 0"
  by (simp add: in_bounds_sint)

lemma in_bounds_clamp_state: "in_bounds (clamp_state x)"
  by (simp add: in_bounds_sint clamp_state_def word_sless_alt)

lemma clamp_state_in_bounds: "in_bounds x \<Longrightarrow> clamp_state x = x"
  by (auto simp add: in_bounds_sint clamp_state_def word_sless_alt)

lemma clamp_state_0: "clamp_state 0 = 0"
  by (simp add: clamp_state_in_bounds in_bounds_0)

lemma spec_narrow8_signed: "spec_narrow8 x = signed_take_bit 7 x"
  by (simp add: spec_narrow8_def signed_take_bit_eq_take_bit_shift take_bit_eq_mod)

lemma shift_sample_arith: "shift_sample d = ucast (signed_drop_bit 7 d)"
  unfolding shift_sample_def
  by (rule bit_word_eqI) (auto simp add: bit_simps)

lemma sint_shift_sample: "sint (shift_sample d) = spec_narrow8 (sint d div 2 ^ 7)"
proof -
  have "sint (shift_sample d) = signed_take_bit 7 (drop_bit 7 (sint d))"
    unfolding shift_sample_def
    by (rule bit_eqI) (auto simp add: bit_simps bit_sint_iff min_def)
  then show ?thesis
    by (simp add: spec_narrow8_signed drop_bit_eq_div)
qed

lemma working_value_pcm:
  assumes "v \<in> {0..15}"
  shows "sint (clamp_sample (shift_sample (pcm v))) = v"
proof -
  from assms have "v = 0 \<or> v = 1 \<or> v = 2 \<or> v = 3 \<or> v = 4 \<or> v = 5 \<or> v = 6 \<or> v = 7
      \<or> v = 8 \<or> v = 9 \<or> v = 10 \<or> v = 11 \<or> v = 12 \<or> v = 13 \<or> v = 14 \<or> v = 15"
    by simp presburger
  then show ?thesis
    by (elim disjE) (simp_all add: pcm_def shift_sample_def clamp_sample_def word_sless_alt)
qed

subsection \<open>The row index of the step table\<close>

lemma out_of_bounds_output:
  "out_of_bounds (output_upd_file T S r ds) = out_of_bounds (encode_loop T S (get_frequency r) ds)"
  by (simp add: output_upd_file_def Let_def purge_def)

lemma state_first:
  "v \<in> {0..15} \<Longrightarrow> state (encode_loop T S f [pcm v]) = T v"
  by (simp add: encode_loop_def encoder_init_def loop_body_fields encode_sample_def Let_def
      working_value_pcm clamp_state_0)

lemma out_of_bounds_one:
  "v \<in> {0..15} \<Longrightarrow> out_of_bounds (encode_loop T S f [pcm v]) = (\<not> in_bounds (T v))"
  by (simp add: encode_loop_def encoder_init_def loop_body_fields encode_sample_def Let_def
      working_value_pcm clamp_state_0)

lemma out_of_bounds_two:
  assumes "v \<in> {0..15}" "w \<in> {0..15}" "in_bounds (T v)"
  shows "out_of_bounds (encode_loop T S f [pcm v, pcm w]) = (\<not> in_bounds (T w - T v))"
proof -
  have "encode_loop T S f [pcm v, pcm w] = loop_body T S f (encode_loop T S f [pcm v]) (pcm w)"
    by (simp add: encode_loop_def)
  then show ?thesis
    using assms
    by (simp add: loop_body_fields out_of_bounds_one state_first encode_sample_def Let_def
        working_value_pcm clamp_state_in_bounds)
qed

lemma differences_in_bounds:
  fixes a b :: "32 word"
  assumes "in_bounds a" "in_bounds b" "in_bounds (a - b)" "in_bounds (b - a)"
  shows "a = b"
proof -
  from assms(1,2) have r: "- (2 ^ 31) \<le> sint a - sint b" "sint a - sint b < 2 ^ 31"
    "- (2 ^ 31) \<le> sint b - sint a" "sint b - sint a < 2 ^ 31"
    by (simp_all add: in_bounds_sint)
  have "sint (a - b) = sint a - sint b"
    using r(1,2) by (simp add: sint_word_ariths signed_take_bit_int_eq_self)
  moreover have "sint (b - a) = sint b - sint a"
    using r(3,4) by (simp add: sint_word_ariths signed_take_bit_int_eq_self)
  ultimately have "sint a = sint b"
    using assms(3,4) by (simp add: in_bounds_sint)
  then show ?thesis by (rule signed_word_eqI)
qed

text \<open>
  The other direction: with a state table whose sixteen entries are one and the same
  value of the range 0 to 15, the state alternates between that value and 0 and no row
  index leaves the step table.
\<close>

lemma constant_table_stays_in_bounds:
  assumes c: "in_bounds c" and T: "\<And>v. v \<in> {0..15} \<Longrightarrow> T v = c"
  shows "\<not> out_of_bounds (output_upd_file T S r ds)"
proof -
  have step: "state (loop_body T S f e d) \<in> {0, c} \<and> \<not> out_of_bounds (loop_body T S f e d)"
    if "state e \<in> {0, c}" "\<not> out_of_bounds e" for e d f
  proof -
    have "sint (clamp_sample (shift_sample d)) \<in> {0..15}"
      using spec_clip_range [of "sint (shift_sample d)"] by (simp add: sint_clamp_sample)
    then have "T (sint (clamp_sample (shift_sample d))) = c" by (rule T)
    moreover have "in_bounds (state e)"
      using that(1) c in_bounds_0 by auto
    then have "clamp_state (state e) = state e"
      by (rule clamp_state_in_bounds)
    ultimately show ?thesis
      using that c in_bounds_0 by (auto simp add: loop_body_fields encode_sample_def Let_def)
  qed
  have "state (foldl (loop_body T S f) e ds) \<in> {0, c} \<and> \<not> out_of_bounds (foldl (loop_body T S f) e ds)"
    if "state e \<in> {0, c}" "\<not> out_of_bounds e" for e f
    using that
  proof (induction ds arbitrary: e)
    case Nil
    then show ?case by simp
  next
    case (Cons d ds)
    from step [OF Cons.prems, of f d] show ?case
      unfolding foldl_Cons by (intro Cons.IH) simp_all
  qed
  from this [of "encoder_init (get_frequency r)" "get_frequency r"] show ?thesis
    by (simp add: out_of_bounds_output encode_loop_def encoder_init_def)
qed

subsection \<open>Sample rates\<close>

lemma get_frequency_valid:
  "r \<in> {5000, 6000, 8000} \<Longrightarrow> get_frequency r \<in> {FIVEKHZ, SIXKHZ, EIGHTKHZ} \<and> get_frequency r \<noteq> NONE"
  by (auto simp add: get_frequency_def FIVEKHZ_def SIXKHZ_def EIGHTKHZ_def NONE_def)

section \<open>The claims\<close>

text \<open>
  C1 (as the program has it). The output is one marker byte followed by the packed codes
  in blocks: every complete block of 256 samples gives 128 packed bytes and is followed
  by the same marker byte again. So the marker stands at the positions 0, 129, 258, ...
  of the output, once for the start and once for every 256 samples consumed.
\<close>

theorem marker_every_256_samples:
  "written (output_upd_file T S r ds) = get_frequency r # frame (get_frequency r) (codes T S 0 ds)
   \<and> (\<forall>j \<le> length ds div 256. written (output_upd_file T S r ds) ! (129 * j) = get_frequency r)"
  by (simp add: written_nth_marker) (rule written_output)

theorem marker_every_256_samples_witness:
  "(1::nat) \<le> length (replicate 256 (0 :: 16 word)) div 256
   \<and> written (output_upd_file (\<lambda>_. 0) (\<lambda>_ _. 0) 8000 (replicate 256 0)) ! 129 = 0x53"
proof -
  have h: "(1::nat) \<le> length (replicate 256 (0 :: 16 word)) div 256"
    by simp
  note marker_every_256_samples [of "\<lambda>_. 0" "\<lambda>_ _. 0" 8000 "replicate 256 0",
      THEN conjunct2, rule_format, of 1, OF h]
  with h show ?thesis
    by (simp add: get_frequency_def EIGHTKHZ_def)
qed

text \<open>
  C1 (as stated) fails. With a marker only after every 256 packed bytes, 256 samples
  would give 129 bytes, the marker and 128 packed bytes. The program writes 130 bytes,
  and the last one is the marker again.
\<close>

theorem marker_every_256_bytes_counterexample:
  "written (output_upd_file (\<lambda>_. 0) (\<lambda>_ _. 0) 8000 (replicate 256 0)) \<noteq>
     spec_pack_stream (get_frequency 8000) (codes (\<lambda>_. 0) (\<lambda>_ _. 0) 0 (replicate 256 0))
   \<and> length (written (output_upd_file (\<lambda>_. 0) (\<lambda>_ _. 0) 8000 (replicate 256 0))) = 130
   \<and> last (written (output_upd_file (\<lambda>_. 0) (\<lambda>_ _. 0) 8000 (replicate 256 0))) = 0x53
   \<and> length (spec_pack_stream (get_frequency 8000)
        (codes (\<lambda>_. 0) (\<lambda>_ _. 0) 0 (replicate 256 0))) = 129"
proof -
  let ?ns = "codes (\<lambda>_. 0) (\<lambda>_ _. 0) 0 (replicate 256 0)"
  let ?w = "written (output_upd_file (\<lambda>_. 0) (\<lambda>_ _. 0) 8000 (replicate 256 0))"
  have n: "length ?ns = 256" by (simp add: length_codes)
  have w: "length ?w = 130" by (simp add: length_written_output)
  have "spec_pack (get_frequency 8000) 0 ?ns = pack ?ns"
    by (rule spec_pack_below) (simp add: n)
  then have s: "length (spec_pack_stream (get_frequency 8000) ?ns) = 129"
    by (simp add: spec_pack_stream_def length_pack n)
  have "?ns \<noteq> []" using n by auto
  then have l: "last ?w = 0x53"
    by (simp add: written_output last_frame_full n get_frequency_def EIGHTKHZ_def)
  from w s have "?w \<noteq> spec_pack_stream (get_frequency 8000) ?ns" by auto
  with w s l show ?thesis by simp
qed

text \<open>
  C2 (what the program does instead). The state is clamped to the range 0 to 15 at the
  start of an iteration, but the new state, the table entry minus the clamped state, is
  used as the row index of the step table without a further clamp. Whenever the state
  table holds two different entries for sample values between 0 and 15, one of four
  buffers of at most two samples drives the row index out of the range 0 to 15.
\<close>

theorem row_index_leaves_step_table:
  "v \<in> {0..15} \<Longrightarrow> w \<in> {0..15} \<Longrightarrow> T v \<noteq> T w \<Longrightarrow>
     (\<exists>ds \<in> set [[pcm v], [pcm w], [pcm v, pcm w], [pcm w, pcm v]].
        out_of_bounds (output_upd_file T S r ds))"
proof -
  assume v: "v \<in> {0..15}" and w: "w \<in> {0..15}" and ne: "T v \<noteq> T w"
  show ?thesis
  proof (rule ccontr)
    assume "\<not> ?thesis"
    then have none: "\<not> out_of_bounds (encode_loop T S (get_frequency r) [pcm v])"
      "\<not> out_of_bounds (encode_loop T S (get_frequency r) [pcm w])"
      "\<not> out_of_bounds (encode_loop T S (get_frequency r) [pcm v, pcm w])"
      "\<not> out_of_bounds (encode_loop T S (get_frequency r) [pcm w, pcm v])"
      by (simp_all add: out_of_bounds_output)
    from none(1,2) v w have b: "in_bounds (T v)" "in_bounds (T w)"
      by (simp_all add: out_of_bounds_one)
    from none(3,4) v w b have "in_bounds (T w - T v)" "in_bounds (T v - T w)"
      by (simp_all add: out_of_bounds_two)
    with b have "T v = T w"
      by (intro differences_in_bounds)
    with ne show False ..
  qed
qed

text \<open>
  An instance: a state table with the entry \<open>-1\<close> for the sample value 0 and the entry 0
  elsewhere. One sample of silence makes the new state \<open>-1\<close>, and the step table is read
  at row \<open>-1\<close>.
\<close>

theorem row_index_leaves_step_table_witness:
  "(0 :: int) \<in> {0..15} \<and> (7 :: int) \<in> {0..15} \<and> (- 1 :: 32 word) \<noteq> 0
   \<and> (out_of_bounds (output_upd_file (\<lambda>i. if i = 0 then - 1 else 0) (\<lambda>_ _. 0) 8000 [pcm 0])
      \<or> out_of_bounds (output_upd_file (\<lambda>i. if i = 0 then - 1 else 0) (\<lambda>_ _. 0) 8000 [pcm 7])
      \<or> out_of_bounds (output_upd_file (\<lambda>i. if i = 0 then - 1 else 0) (\<lambda>_ _. 0) 8000 [pcm 0, pcm 7])
      \<or> out_of_bounds (output_upd_file (\<lambda>i. if i = 0 then - 1 else 0) (\<lambda>_ _. 0) 8000 [pcm 7, pcm 0]))
   \<and> out_of_bounds (output_upd_file (\<lambda>i. if i = 0 then - 1 else 0) (\<lambda>_ _. 0) 8000 [0])
   \<and> state (output_upd_file (\<lambda>i. if i = 0 then - 1 else 0) (\<lambda>_ _. 0) 8000 [0]) = - 1"
proof -
  have h: "(0 :: int) \<in> {0..15}" "(7 :: int) \<in> {0..15}"
    "(\<lambda>i :: int. if i = 0 then - 1 else 0 :: 32 word) 0 \<noteq> (\<lambda>i :: int. if i = 0 then - 1 else 0) 7"
    by simp_all
  have run: "out_of_bounds (output_upd_file (\<lambda>i. if i = 0 then - 1 else 0) (\<lambda>_ _. 0) 8000 [0])"
    "state (output_upd_file (\<lambda>i. if i = 0 then - 1 else 0) (\<lambda>_ _. 0) 8000 [0]) = - 1"
    by code_simp+
  from row_index_leaves_step_table [OF h, of "\<lambda>_ _. 0" 8000] run h(1,2) show ?thesis
    by simp
qed

text \<open>
  C3. In one iteration, with \<open>s\<close> the clamped old state and \<open>v\<close> the clamped working
  value, both between 0 and 15: the new state is the state-table entry of \<open>v\<close> minus \<open>s\<close>,
  the 4-bit code is the low four bits of the step-table entry at row new state and
  column \<open>v\<close> minus \<open>v\<close>, these four bits are the low half of the new \<^verbatim>\<open>output_sample\<close>, and
  the next iteration starts from the new state.
\<close>

theorem encode_sample_differences:
  "(let s = clamp_state (state e);
        v = clamp_sample (shift_sample d);
        new_state = T (sint v) - s;
        nibble = (ucast ((S (sint new_state) (sint v) - scast v) AND 0x0f) :: 8 word);
        e' = loop_body T S f e d
    in in_bounds s \<and> 0 \<le> sint v \<and> sint v \<le> 15
       \<and> fst (encode_sample T S (state e) d) = new_state
       \<and> code_of (snd (encode_sample T S (state e) d)) = nibble
       \<and> state e' = new_state
       \<and> output_sample e' AND 0x0f = nibble
       \<and> state (loop_body T S f e' d') =
           T (sint (clamp_sample (shift_sample d'))) - clamp_state new_state)"
proof -
  have "fst (encode_sample T S x d) = T (sint (clamp_sample (shift_sample d))) - clamp_state x" for x d
    by (simp add: encode_sample_def Let_def)
  moreover have "code_of (snd (encode_sample T S x d)) =
      ucast ((S (sint (T (sint (clamp_sample (shift_sample d))) - clamp_state x))
                (sint (clamp_sample (shift_sample d))) - scast (clamp_sample (shift_sample d))) AND 0x0f)" for x
    by (simp add: encode_sample_def Let_def code_of_narrow)
  ultimately show ?thesis
    using spec_clip_range [of "sint (shift_sample d)"]
    by (simp add: Let_def in_bounds_clamp_state sint_clamp_sample loop_body_fields(1) output_sample_low4)
qed

text \<open>
  C4 (as the program has it). For \<open>n\<close> samples the output has \<open>ceil (n / 2)\<close> packed bytes
  and \<open>1 + floor (n / 256)\<close> marker bytes: the first marker and one for every 256
  samples.
\<close>

theorem output_length:
  "length (written (output_upd_file T S r ds)) = (length ds + 1) div 2 + (1 + length ds div 256)
   \<and> length (pack (codes T S 0 ds)) = (length ds + 1) div 2"
  by (simp add: length_written_output length_pack length_codes)

text \<open>
  C4 (as stated) fails for 256 samples: the formula of the specification gives 129
  bytes, the program writes 130.
\<close>

theorem output_length_counterexample:
  "length (written (output_upd_file (\<lambda>_. 0) (\<lambda>_ _. 0) 8000 (replicate 256 0))) = 130
   \<and> spec_output_length 256 = 129"
  by (simp add: length_written_output spec_output_length_def)

text \<open>
  C5. The working value of a sample is the signed sample shifted right arithmetically by
  7 bits, narrowed to a signed 8-bit value and clipped to the range 0 to 15: a negative
  value becomes 0, a value above 15 becomes 15. The program shifts the unsigned copy of
  the sample; after the narrowing both shifts agree.
\<close>

theorem working_value_shift_narrow_clip:
  "sint (clamp_sample (shift_sample d)) = spec_working_value d
   \<and> 0 \<le> sint (clamp_sample (shift_sample d)) \<and> sint (clamp_sample (shift_sample d)) \<le> 15
   \<and> shift_sample d = ucast (signed_drop_bit 7 d)"
proof -
  have "sint (clamp_sample (shift_sample d)) = spec_working_value d"
    by (simp add: sint_clamp_sample spec_working_value_def sint_shift_sample)
  moreover have "0 \<le> sint (clamp_sample (shift_sample d)) \<and> sint (clamp_sample (shift_sample d)) \<le> 15"
    unfolding sint_clamp_sample by (rule spec_clip_range)
  ultimately show ?thesis
    using shift_sample_arith [of d] by blast
qed

text \<open>
  C6. A run with a sample rate other than 5000, 6000 or 8000 ends in \<^verbatim>\<open>read_pcm_file\<close> with
  the message about sample rates and has written no byte. Every run that does write
  bytes has one of the three rates, and its marker is one of the three marker values and
  not \<open>NONE\<close>.
\<close>

theorem invalid_rate_no_output:
  "(samplerate info \<notin> {5000, 6000, 8000} \<longrightarrow>
      main_run T S info ds =
        Inl (Killed ''Only sample rates of 5khz, 6khz, or 8kz are supported.'' EXIT_FAILURE))
   \<and> (\<forall>bytes. main_run T S info ds = Inr bytes \<longrightarrow>
         samplerate info \<in> {5000, 6000, 8000}
         \<and> get_frequency (samplerate info) \<in> {FIVEKHZ, SIXKHZ, EIGHTKHZ}
         \<and> get_frequency (samplerate info) \<noteq> NONE
         \<and> bytes = get_frequency (samplerate info) #
                     frame (get_frequency (samplerate info)) (codes T S 0 ds))"
proof (intro conjI impI allI)
  assume "samplerate info \<notin> {5000, 6000, 8000}"
  then show "main_run T S info ds =
      Inl (Killed ''Only sample rates of 5khz, 6khz, or 8kz are supported.'' EXIT_FAILURE)"
    by (simp add: main_run_def read_pcm_file_def)
next
  fix bytes
  assume run: "main_run T S info ds = Inr bytes"
  then show valid: "samplerate info \<in> {5000, 6000, 8000}"
    by (auto simp add: main_run_def read_pcm_file_def split: if_splits)
  from get_frequency_valid [OF valid]
  show "get_frequency (samplerate info) \<in> {FIVEKHZ, SIXKHZ, EIGHTKHZ}"
    and "get_frequency (samplerate info) \<noteq> NONE"
    by simp_all
  from run show "bytes = get_frequency (samplerate info) #
      frame (get_frequency (samplerate info)) (codes T S 0 ds)"
    by (auto simp add: main_run_def written_output split: sum.splits)
qed

theorem invalid_rate_no_output_witness:
  "main_run (\<lambda>_. 0) (\<lambda>_ _. 3) \<lparr>samplerate = 11025, channels = 1, format = 2\<rparr> [0, 0] =
     Inl (Killed ''Only sample rates of 5khz, 6khz, or 8kz are supported.'' 1)
   \<and> main_run (\<lambda>_. 0) (\<lambda>_ _. 3) \<lparr>samplerate = 8000, channels = 1, format = 2\<rparr> [0, 0] =
       Inr [0x53, 0x33]
   \<and> get_frequency 8000 \<noteq> NONE"
proof -
  have bad: "samplerate \<lparr>samplerate = 11025, channels = 1, format = 2\<rparr> \<notin> {5000, 6000, 8000 :: 32 word}"
    by simp
  have ok: "main_run (\<lambda>_. 0) (\<lambda>_ _. 3) \<lparr>samplerate = 8000, channels = 1, format = 2\<rparr> [0, 0] =
      Inr [0x53, 0x33]"
    by code_simp
  note t1 = invalid_rate_no_output [of "\<lparr>samplerate = 11025, channels = 1, format = 2\<rparr>"
      "\<lambda>_. 0" "\<lambda>_ _. 3" "[0, 0]", THEN conjunct1, rule_format, OF bad]
  note t2 = invalid_rate_no_output [of "\<lparr>samplerate = 8000, channels = 1, format = 2\<rparr>"
      "\<lambda>_. 0" "\<lambda>_ _. 3" "[0, 0]", THEN conjunct2, rule_format, OF ok]
  from t2 have "get_frequency (samplerate \<lparr>samplerate = 8000, channels = 1, format = 2\<rparr>) \<noteq> NONE"
    by blast
  then have "get_frequency 8000 \<noteq> NONE"
    by simp
  moreover from t1 have "main_run (\<lambda>_. 0) (\<lambda>_ _. 3)
      \<lparr>samplerate = 11025, channels = 1, format = 2\<rparr> [0, 0] =
     Inl (Killed ''Only sample rates of 5khz, 6khz, or 8kz are supported.'' 1)"
    by (simp add: EXIT_FAILURE_def)
  ultimately show ?thesis
    using ok by blast
qed

text \<open>
  C7. For the rates 5000, 6000 and 8000 the output starts with the byte \<open>0x5F\<close>, \<open>0x59\<close>
  and \<open>0x53\<close>; the packed data and the later markers follow it. The byte is written before
  the loop starts, whatever the buffer holds.
\<close>

theorem first_byte_is_marker:
  "written (output_upd_file T S 5000 ds) = 0x5f # frame 0x5f (codes T S 0 ds)
   \<and> written (output_upd_file T S 6000 ds) = 0x59 # frame 0x59 (codes T S 0 ds)
   \<and> written (output_upd_file T S 8000 ds) = 0x53 # frame 0x53 (codes T S 0 ds)
   \<and> written (encode_loop T S (get_frequency r) []) = [get_frequency r]"
  by (simp add: written_output get_frequency_def FIVEKHZ_def SIXKHZ_def EIGHTKHZ_def
      encode_loop_def encoder_init_def)

text \<open>
  C8. After an even number of samples the next sample \<open>a\<close> only leaves its code in
  \<^verbatim>\<open>output_sample\<close>; the sample \<open>b\<close> after it writes one byte, the code of \<open>a\<close> shifted left
  by four bits or-ed with the code of \<open>b\<close>. The high half of that byte is the first code,
  the low half is the second.
\<close>

theorem second_nibble_packing:
  "even (length ds) \<Longrightarrow>
     (let pending_nibble = last (codes T S 0 (ds @ [a]));
          new_nibble = last (codes T S 0 (ds @ [a, b]));
          byte = push_bit 4 pending_nibble OR new_nibble
      in output_sample (encode_loop T S f (ds @ [a])) = pending_nibble
         \<and> written (encode_loop T S f (ds @ [a])) = written (encode_loop T S f ds)
         \<and> written (encode_loop T S f (ds @ [a, b])) =
             written (encode_loop T S f ds) @ [byte] @
             (if (length ds + 2) mod 256 = 0 then [f] else [])
         \<and> drop_bit 4 byte = pending_nibble
         \<and> byte AND 0x0f = new_nibble)"
proof -
  assume ev: "even (length ds)"
  obtain x where x: "last (codes T S 0 (ds @ [a])) = code_of x"
    using last_codes_code_of [of "ds @ [a]" T S 0] by auto
  obtain y where y: "last (codes T S 0 (ds @ [a, b])) = code_of y"
    using last_codes_code_of [of "ds @ [a, b]" T S 0] by auto
  show ?thesis
    unfolding Let_def x y pair_bits
    using first_of_pair [OF ev, of T S f a] second_of_pair [OF ev, of T S f a b]
    by (simp add: x y)
qed

theorem second_nibble_packing_witness:
  "even (length ([] :: 16 word list))
   \<and> output_sample (encode_loop (\<lambda>_. 0) (\<lambda>_ _. 3) 0x53 ([] @ [0])) = 3
   \<and> written (encode_loop (\<lambda>_. 0) (\<lambda>_ _. 3) 0x53 ([] @ [0, 0])) = [0x53, 0x33]"
proof -
  have h: "even (length ([] :: 16 word list))"
    by simp
  have c: "last (codes (\<lambda>_. 0) (\<lambda>_ _. 3) 0 ([] @ [0])) = 3"
    "last (codes (\<lambda>_. 0) (\<lambda>_ _. 3) 0 ([] @ [0, 0])) = 3"
    "written (encode_loop (\<lambda>_. 0) (\<lambda>_ _. 3) 0x53 []) = [0x53]"
    by code_simp+
  from second_nibble_packing [where ds = "[]" and T = "\<lambda>_. 0" and S = "\<lambda>_ _. 3" and a = 0
      and b = 0 and f = "0x53", OF h] h show ?thesis
    unfolding Let_def c by simp
qed

text \<open>
  C9. For an odd number of samples the flush after the loop writes exactly one more
  byte, the code of the last sample shifted left by four bits: its high half is that
  code and its low half is 0. The last sample itself wrote nothing.
\<close>

theorem odd_length_final_byte:
  "odd (length ds) \<Longrightarrow>
     (let unpaired = last (codes T S 0 ds);
          final_byte = push_bit 4 unpaired
      in written (output_upd_file T S r ds) =
           written (encode_loop T S (get_frequency r) ds) @ [final_byte]
         \<and> written (encode_loop T S (get_frequency r) ds) =
             written (encode_loop T S (get_frequency r) (butlast ds))
         \<and> drop_bit 4 final_byte = unpaired
         \<and> final_byte AND 0x0f = 0)"
proof -
  assume od: "odd (length ds)"
  then have ne: "ds \<noteq> []" by auto
  then obtain xs a where ds: "ds = xs @ [a]" by (cases ds rule: rev_cases) auto
  with od have ev: "even (length xs)" by simp
  obtain x where x: "last (codes T S 0 ds) = code_of x"
    using last_codes_code_of [OF ne, of T S 0] by auto
  have "written (output_upd_file T S r ds) =
      written (encode_loop T S (get_frequency r) ds) @ [push_bit 4 (last (codes T S 0 ds))]"
    using first_of_pair [OF ev, of T S "get_frequency r" a]
    by (simp add: output_upd_file_def Let_def purge_written ds)
  moreover have "written (encode_loop T S (get_frequency r) ds) =
      written (encode_loop T S (get_frequency r) (butlast ds))"
    using first_of_pair(1) [OF ev, of T S "get_frequency r" a] by (simp add: ds)
  ultimately show ?thesis
    unfolding Let_def x pair_bits by (simp add: x)
qed

theorem odd_length_final_byte_witness:
  "odd (length [0 :: 16 word])
   \<and> written (output_upd_file (\<lambda>_. 0) (\<lambda>_ _. 3) 8000 [0]) = [0x53, 0x30]
   \<and> (0x30 :: 8 word) AND 0x0f = 0"
proof -
  have h: "odd (length [0 :: 16 word])"
    by simp
  have c: "last (codes (\<lambda>_. 0) (\<lambda>_ _. 3) 0 [0]) = 3"
    "written (encode_loop (\<lambda>_. 0) (\<lambda>_ _. 3) (get_frequency 8000) [0]) = [0x53]"
    by code_simp+
  from odd_length_final_byte [OF h, of "\<lambda>_. 0" "\<lambda>_ _. 3" 8000] h show ?thesis
    unfolding Let_def c by simp
qed

text \<open>
  C10. When the number of samples is a positive multiple of 256, the last byte of the
  output is the marker. It directly follows the byte packed from the last two samples,
  and nothing follows it.
\<close>

theorem final_marker_after_full_block:
  "ds \<noteq> [] \<Longrightarrow> length ds mod 256 = 0 \<Longrightarrow>
     last (written (output_upd_file T S r ds)) = get_frequency r
     \<and> written (output_upd_file T S r ds) =
         written (encode_loop T S (get_frequency r) (butlast (butlast ds))) @
         [push_bit 4 (last (butlast (codes T S 0 ds))) OR last (codes T S 0 ds), get_frequency r]"
proof -
  assume ne: "ds \<noteq> []" and full: "length ds mod 256 = 0"
  then have "256 dvd length ds" and "0 < length ds" by (simp_all add: mod_eq_0_iff_dvd)
  then have big: "256 \<le> length ds" by (rule dvd_imp_le)
  obtain ys b where ys: "ds = ys @ [b]" using ne by (cases ds rule: rev_cases) auto
  with big have "ys \<noteq> []" by auto
  then obtain xs a where "ys = xs @ [a]" by (cases ys rule: rev_cases) auto
  with ys have ds: "ds = xs @ [a, b]" by simp
  from full have ev: "even (length xs)"
    by (simp add: ds) presburger
  have k: "(length xs + 2) mod 256 = 0" using full by (simp add: ds)
  have bl: "butlast (codes T S 0 (xs @ [a, b])) = codes T S 0 (xs @ [a])"
    using codes_snoc [of T S "xs @ [a]" b "get_frequency r"] by simp
  have "onesixty (encode_loop T S (get_frequency r) ds) = 0"
    using full by (simp add: onesixty_encode_loop)
  then have "written (output_upd_file T S r ds) = written (encode_loop T S (get_frequency r) ds)"
    by (simp add: output_upd_file_def Let_def purge_written)
  also have "\<dots> = written (encode_loop T S (get_frequency r) xs) @
      [push_bit 4 (last (codes T S 0 (xs @ [a]))) OR last (codes T S 0 (xs @ [a, b])), get_frequency r]"
    using second_of_pair [OF ev, of T S "get_frequency r" a b] k by (simp add: ds)
  finally show ?thesis
    by (simp add: ds bl butlast_append)
qed

theorem final_marker_after_full_block_witness:
  "replicate 256 (0 :: 16 word) \<noteq> [] \<and> length (replicate 256 (0 :: 16 word)) mod 256 = 0
   \<and> last (written (output_upd_file (\<lambda>_. 0) (\<lambda>_ _. 3) 8000 (replicate 256 0))) = 0x53"
proof -
  have h: "replicate 256 (0 :: 16 word) \<noteq> []" "length (replicate 256 (0 :: 16 word)) mod 256 = 0"
    by simp_all
  from final_marker_after_full_block [OF h, of "\<lambda>_. 0" "\<lambda>_ _. 3" 8000, THEN conjunct1] h
  show ?thesis
    by (simp add: get_frequency_def EIGHTKHZ_def)
qed

end
